theory Spec2Isabelle
  imports Main "HOL-Library.Multiset"
begin

section \<open>Insertion-ordered dictionaries\<close>

text \<open>
  A JavaScript \<^verbatim>\<open>Map\<close> and a Python \<^verbatim>\<open>dict\<close> both iterate in insertion order, and
  storing under a key that is already present replaces the value where the key stands.
  Both are modelled by an association list with one entry per key.
\<close>

type_synonym ('k, 'v) omap = "('k \<times> 'v) list"

fun omap_set :: "'k \<Rightarrow> 'v \<Rightarrow> ('k, 'v) omap \<Rightarrow> ('k, 'v) omap" where
  "omap_set k v [] = [(k, v)]"
| "omap_set k v ((k', v') # m) =
     (if k' = k then (k, v) # m else (k', v') # omap_set k v m)"

definition omap_has :: "'k \<Rightarrow> ('k, 'v) omap \<Rightarrow> bool" where
  "omap_has k m = (case map_of m k of None \<Rightarrow> False | Some v \<Rightarrow> True)"

definition omap_values :: "('k, 'v) omap \<Rightarrow> 'v list" where
  "omap_values m = map snd m"

section \<open>Numbers, and Array.prototype.sort with a comparator\<close>

text \<open>
  The numbers that occur are the integral time values of dates and NaN, which is \<open>None\<close>.
  A subtraction with NaN on either side is NaN.
\<close>

type_synonym number = "int option"

definition js_minus :: "number \<Rightarrow> number \<Rightarrow> number" where
  "js_minus x y = (case (x, y) of (Some m, Some n) \<Rightarrow> Some (m - n) | _ \<Rightarrow> None)"

text \<open>
  \<^verbatim>\<open>xs.sort(comparefn)\<close> compares through \<^verbatim>\<open>SortCompare\<close>, which reads a result NaN of
  the comparator as \<open>+0\<close>. It places \<open>a\<close> before \<open>b\<close> when the comparison is negative
  and keeps the order of elements that compare equal (the sort is stable). For a
  consistent comparator that fixes the result; it is computed here by insertion from the
  right. For a comparator that is not consistent, as one that returns NaN for some pairs
  only, the standard leaves the order to the implementation; the insertion is then one
  implementation.
\<close>

definition SortCompare :: "('a \<Rightarrow> 'a \<Rightarrow> number) \<Rightarrow> 'a \<Rightarrow> 'a \<Rightarrow> int" where
  "SortCompare comparefn x y = (case comparefn x y of None \<Rightarrow> 0 | Some v \<Rightarrow> v)"

fun js_insert :: "('a \<Rightarrow> 'a \<Rightarrow> int) \<Rightarrow> 'a \<Rightarrow> 'a list \<Rightarrow> 'a list" where
  "js_insert cmp x [] = [x]"
| "js_insert cmp x (y # ys) =
     (if cmp x y \<le> 0 then x # y # ys else y # js_insert cmp x ys)"

definition js_sort :: "('a \<Rightarrow> 'a \<Rightarrow> number) \<Rightarrow> 'a list \<Rightarrow> 'a list" where
  "js_sort comparefn xs = foldr (js_insert (SortCompare comparefn)) xs []"

section \<open>frontend/src/lib/chatService.ts\<close>

text \<open>
  A \<^verbatim>\<open>Date\<close> holds a time value, an integer number of milliseconds, or is invalid, as
  \<^verbatim>\<open>new Date(s)\<close> is for a string \<open>s\<close> that is no date; \<^verbatim>\<open>getTime()\<close> of an invalid
  \<^verbatim>\<open>Date\<close> is NaN. \<^verbatim>\<open>new Date(d)\<close> of a \<^verbatim>\<open>Date\<close> \<open>d\<close> is a copy of \<open>d\<close>.
  The fields \<^verbatim>\<open>id\<close> are named \<open>message_id\<close> and \<open>session_id\<close>.
\<close>

datatype Date = Date int | Invalid_Date

fun getTime :: "Date \<Rightarrow> number" where
  "getTime (Date t) = Some t"
| "getTime Invalid_Date = None"

datatype message_role = user | assistant

record ChatMessage =
  message_id :: string
  content :: string
  role :: message_role
  timestamp :: Date

record ChatSession =
  session_id :: string
  title :: string
  messages :: "ChatMessage list"
  createdAt :: Date
  lastUpdated :: Date

definition smartMergeSessions :: "ChatSession list \<Rightarrow> ChatSession list \<Rightarrow> ChatSession list" where
  "smartMergeSessions backendSessions localSessions =
     (let merged = foldl (\<lambda>m session. omap_set (session_id session) session m) [] backendSessions;
          merged = foldl (\<lambda>m localSession.
                      if \<not> omap_has (session_id localSession) m
                      then omap_set (session_id localSession) localSession m
                      else m) merged localSessions
      in js_sort (\<lambda>a b. js_minus (getTime (lastUpdated b)) (getTime (lastUpdated a)))
           (omap_values merged))"

section \<open>The API client (unnamed/part_000, imported as \<^verbatim>\<open>./auth\<close>)\<close>

text \<open>
  The browser state the client touches: the cookie jar that \<^verbatim>\<open>js-cookie\<close> reads and
  writes, and the console. An \<^verbatim>\<open>async\<close> function either returns (its promise resolves)
  or throws (its promise rejects); a statement is a function from the state to its
  completion and the new state.
\<close>

datatype axios_error = AxiosError (response_status: "nat option")

record browser =
  cookies :: "string \<rightharpoonup> string"
  console :: "(string \<times> axios_error) list"

datatype 'a completion = Return 'a | Throw axios_error

type_synonym 'a js = "browser \<Rightarrow> 'a completion \<times> browser"

definition Cookies_get :: "string \<Rightarrow> browser \<Rightarrow> string option" where
  "Cookies_get name b = cookies b name"

definition Cookies_remove :: "string \<Rightarrow> browser \<Rightarrow> browser" where
  "Cookies_remove name b = b\<lparr>cookies := (cookies b)(name := None)\<rparr>"

definition console_error :: "string \<Rightarrow> axios_error \<Rightarrow> browser \<Rightarrow> browser" where
  "console_error msg error b = b\<lparr>console := console b @ [(msg, error)]\<rparr>"

record request_config =
  url :: string
  Authorization :: "string option"

text \<open>The request interceptor: the bearer token is added when the cookie is set and not empty.\<close>

definition request_interceptor :: "request_config \<Rightarrow> browser \<Rightarrow> request_config" where
  "request_interceptor config b =
     (case Cookies_get ''auth_token'' b of
        None \<Rightarrow> config
      | Some token \<Rightarrow>
          if token \<noteq> [] then config\<lparr>Authorization := Some (''Bearer '' @ token)\<rparr> else config)"

text \<open>
  \<^verbatim>\<open>apiClient.post(url)\<close>. The network and the server are the parameter \<open>adapter\<close>: it
  settles every request, with a response or with an error, which may carry a response
  status. The response interceptor removes \<^verbatim>\<open>auth_token\<close> on status 401 and rejects
  with the same error.
\<close>

definition apiClient_post :: "(request_config \<Rightarrow> axios_error + 'r) \<Rightarrow> string \<Rightarrow> 'r js" where
  "apiClient_post adapter path b =
     (let config = request_interceptor \<lparr>url = path, Authorization = None\<rparr> b
      in case adapter config of
           Inr response \<Rightarrow> (Return response, b)
         | Inl error \<Rightarrow>
             (Throw error,
              if response_status error = Some 401 then Cookies_remove ''auth_token'' b else b))"

text \<open>
  \<^verbatim>\<open>try { body } catch (error) { handler } finally { finalizer }\<close>: the handler runs when
  the body throws, the finalizer runs in every case, and a finalizer that throws replaces
  the completion of what ran before it.
\<close>

definition try_catch_finally :: "'a js \<Rightarrow> (axios_error \<Rightarrow> 'a js) \<Rightarrow> unit js \<Rightarrow> 'a js" where
  "try_catch_finally body handler finalizer b =
     (let (r, b1) = body b;
          (r', b2) = (case r of Return v \<Rightarrow> (Return v, b1) | Throw error \<Rightarrow> handler error b1);
          (f, b3) = finalizer b2
      in case f of Return u \<Rightarrow> (r', b3) | Throw error \<Rightarrow> (Throw error, b3))"

definition logout :: "(request_config \<Rightarrow> axios_error + 'r) \<Rightarrow> unit js" where
  "logout adapter =
     try_catch_finally
       (\<lambda>b. case apiClient_post adapter ''/auth/logout'' b of
               (Return response, b') \<Rightarrow> (Return (), b')
             | (Throw error, b') \<Rightarrow> (Throw error, b'))
       (\<lambda>error b. (Return (), console_error ''Logout error:'' error b))
       (\<lambda>b. (Return (), Cookies_remove ''session_id'' (Cookies_remove ''auth_token'' b)))"

section \<open>The backend, as the code blocks of backend/README.md give it\<close>

text \<open>
  The Python files of the backend are described in backend/README.md, which quotes
  \<^verbatim>\<open>analyze_query_and_get_dates\<close>, the date handling of \<^verbatim>\<open>chat_with_assistant\<close> and
  \<^verbatim>\<open>HybridRetriever.retrieve\<close> as code. The functions these blocks call and do not
  define are the fields of \<open>services\<close>: the date parser, the comparative-query test,
  the month generator, the rendering of a list inside an f-string, and the two searches.
\<close>

record document =
  page_content :: string
  metadata :: "string \<rightharpoonup> string"

record services =
  parse_multiple_dates_from_question :: "string \<Rightarrow> string list"
  is_comparative_query :: "string \<Rightarrow> bool"
  generate_full_month_dates :: "string list"
  repr :: "string list \<Rightarrow> string"
  similarity_search :: "string \<Rightarrow> int \<Rightarrow> document list"
  get_relevant_documents :: "string \<Rightarrow> document list"

definition analyze_query_and_get_dates :: "services \<Rightarrow> string \<Rightarrow> string list \<Rightarrow> string list \<times> string" where
  "analyze_query_and_get_dates S query parsed_dates =
     (if parsed_dates \<noteq> [] then (parsed_dates, ''explicit'')
      else if is_comparative_query S query then (generate_full_month_dates S, ''month_range'')
      else ([], ''no_filter''))"

text \<open>The hint of \<^verbatim>\<open>chat_with_assistant\<close>, and the query it hands to the assistant.\<close>

definition date_hint :: "services \<Rightarrow> string list \<Rightarrow> string" where
  "date_hint S dates_to_use =
     (if dates_to_use \<noteq> [] then ''[SYSTEM HINT: Detected dates: '' @ repr S dates_to_use @ '']''
      else ''[SYSTEM HINT: Use March 1-5, 2025]'')"

definition enhanced_query :: "services \<Rightarrow> string \<Rightarrow> string" where
  "enhanced_query S query =
     (let parsed_dates = parse_multiple_dates_from_question S query;
          (dates_to_use, strategy) = analyze_query_and_get_dates S query parsed_dates;
          hint = date_hint S dates_to_use
      in query @ [CHR 0x0A, CHR 0x0A] @ hint)"

text \<open>
  \<^verbatim>\<open>if target_date:\<close> holds for a string that is not empty, and fails for \<^verbatim>\<open>None\<close>.
  \<^verbatim>\<open>xs[:k]\<close> is the first \<open>k\<close> elements, and all but the last \<open>-k\<close> when \<open>k\<close> is
  negative.
\<close>

definition py_truthy :: "string option \<Rightarrow> bool" where
  "py_truthy v = (case v of None \<Rightarrow> False | Some s \<Rightarrow> s \<noteq> [])"

definition py_slice_to :: "int \<Rightarrow> 'a list \<Rightarrow> 'a list" where
  "py_slice_to k xs = (if 0 \<le> k then take (nat k) xs else take (length xs - nat (- k)) xs)"

text \<open>
  \<^verbatim>\<open>HybridRetriever.retrieve\<close>. The block reads \<^verbatim>\<open>all_docs\<close> and \<^verbatim>\<open>target_date\<close>
  without binding them: \<open>all_docs\<close> is the dense results followed by the BM25 results
  (the step is headed "Union"), and \<open>target_date\<close> is an argument here. The dictionary
  comprehension keeps one document per \<^verbatim>\<open>page_content\<close>.
\<close>

definition retrieve :: "services \<Rightarrow> string option \<Rightarrow> string \<Rightarrow> int \<Rightarrow> int \<Rightarrow> int \<Rightarrow> document list" where
  "retrieve S target_date query k_dense k_bm25 final_k =
     (let dense_docs = similarity_search S query k_dense;
          bm25_docs = get_relevant_documents S query;
          all_docs = dense_docs @ bm25_docs;
          union = omap_values (foldl (\<lambda>d doc. omap_set (page_content doc) doc d) [] all_docs);
          union = (if py_truthy target_date
                   then filter (\<lambda>d. metadata d ''date'' = target_date) union
                   else union)
      in py_slice_to final_k union)"

section \<open>Sample inputs\<close>

text \<open>
  Two backend sessions and two local sessions, one of them with the id of a backend
  session; a backend list whose second session has an invalid date, as a history item
  whose \<^verbatim>\<open>created_at\<close> is no date gives, with two newer local sessions; and services in which one query has a date, one is comparative, and the two
  searches return one document each.
\<close>

definition sample_backend :: "ChatSession list" where
  "sample_backend =
     [\<lparr>session_id = ''a'', title = ''A'', messages = [], createdAt = Date 1, lastUpdated = Date 5\<rparr>,
      \<lparr>session_id = ''b'', title = ''B'', messages = [], createdAt = Date 2, lastUpdated = Date 9\<rparr>]"

definition sample_local :: "ChatSession list" where
  "sample_local =
     [\<lparr>session_id = ''a'', title = ''A local'', messages = [], createdAt = Date 1, lastUpdated = Date 7\<rparr>,
      \<lparr>session_id = ''c'', title = ''C'', messages = [], createdAt = Date 3, lastUpdated = Date 6\<rparr>]"

definition sample_backend_invalid :: "ChatSession list" where
  "sample_backend_invalid =
     [\<lparr>session_id = ''a'', title = ''A'', messages = [], createdAt = Date 1, lastUpdated = Date 5\<rparr>,
      \<lparr>session_id = ''x'', title = ''X'', messages = [], createdAt = Invalid_Date,
        lastUpdated = Invalid_Date\<rparr>]"

definition sample_local_newer :: "ChatSession list" where
  "sample_local_newer =
     [\<lparr>session_id = ''b'', title = ''B'', messages = [], createdAt = Date 2, lastUpdated = Date 9\<rparr>,
      \<lparr>session_id = ''c'', title = ''C'', messages = [], createdAt = Date 3, lastUpdated = Date 6\<rparr>]"

definition sample_services :: services where
  "sample_services =
     \<lparr>parse_multiple_dates_from_question =
        (\<lambda>q. if q = ''tanggal 3 Maret 2025'' then [''2025-03-03''] else []),
      is_comparative_query = (\<lambda>q. q = ''Pada tanggal berapa efisiensi Unit 7 paling baik?''),
      generate_full_month_dates = [''2025-03-01'', ''2025-03-02''],
      repr = concat,
      similarity_search =
        (\<lambda>q k. [\<lparr>page_content = ''Beban Unit 7: 310 MW'', metadata = [''date'' \<mapsto> ''2025-03-09'']\<rparr>]),
      get_relevant_documents =
        (\<lambda>q. [\<lparr>page_content = ''Laporan shift'', metadata = Map.empty\<rparr>])\<rparr>"

section \<open>Properties of the dictionaries and of the sort\<close>

lemma omap_set_keys: "fst ` set (omap_set k v m) = insert k (fst ` set m)"
proof (induction m)
  case Nil
  then show ?case by simp
next
  case (Cons p m)
  obtain k' v' where p: "p = (k', v')" by (cases p)
  show ?case
  proof (cases "k' = k")
    case True
    with p show ?thesis by simp
  next
    case False
    with p Cons.IH show ?thesis by (simp add: insert_commute)
  qed
qed

lemma omap_set_distinct: "distinct (map fst m) \<Longrightarrow> distinct (map fst (omap_set k v m))"
proof (induction m)
  case Nil
  then show ?case by simp
next
  case (Cons p m)
  obtain k' v' where p: "p = (k', v')" by (cases p)
  show ?case
  proof (cases "k' = k")
    case True
    with Cons.prems p show ?thesis by simp
  next
    case False
    with Cons p show ?thesis by (simp add: omap_set_keys)
  qed
qed

lemma omap_set_subset: "set (omap_set k v m) \<subseteq> insert (k, v) (set m)"
  by (induction m) (auto split: if_splits)

lemma omap_has_keys: "omap_has k m \<longleftrightarrow> k \<in> fst ` set m"
proof (cases "map_of m k")
  case None
  then have "k \<notin> fst ` set m" by (simp add: map_of_eq_None_iff)
  with None show ?thesis by (simp add: omap_has_def)
next
  case (Some v)
  then have "k \<in> fst ` set m" by (metis map_of_eq_None_iff option.distinct(1))
  with Some show ?thesis by (simp add: omap_has_def)
qed

lemma js_insert_mset: "mset (js_insert cmp x xs) = add_mset x (mset xs)"
  by (induction xs) auto

lemma js_insert_set: "set (js_insert cmp x xs) = insert x (set xs)"
  using js_insert_mset [of cmp x xs] by (metis set_mset_add_mset_insert set_mset_mset)

lemma js_sort_mset: "mset (js_sort comparefn xs) = mset xs"
  unfolding js_sort_def by (induction xs) (auto simp: js_insert_mset)

lemma js_sort_set: "set (js_sort comparefn xs) = set xs"
  using js_sort_mset [of comparefn xs] by (metis set_mset_mset)

lemma js_sort_distinct_map: "distinct (map f (js_sort comparefn xs)) = distinct (map f xs)"
proof -
  have "mset (map f (js_sort comparefn xs)) = mset (map f xs)"
    by (simp add: js_sort_mset)
  then show ?thesis by (rule mset_eq_imp_distinct_iff)
qed

text \<open>
  Insertion keeps a list ordered when the comparison is total and transitive on the
  elements at hand: the comparator need not be consistent on values that do not occur.
\<close>

lemma js_insert_sorted:
  assumes total: "\<And>a b. a \<in> A \<Longrightarrow> b \<in> A \<Longrightarrow> 0 < cmp a b \<Longrightarrow> cmp b a \<le> 0"
    and trans: "\<And>a b c. a \<in> A \<Longrightarrow> b \<in> A \<Longrightarrow> c \<in> A \<Longrightarrow> cmp a b \<le> 0 \<Longrightarrow> cmp b c \<le> 0 \<Longrightarrow> cmp a c \<le> 0"
    and x: "x \<in> A"
  shows "set xs \<subseteq> A \<Longrightarrow> sorted_wrt (\<lambda>a b. cmp a b \<le> 0) xs
           \<Longrightarrow> sorted_wrt (\<lambda>a b. cmp a b \<le> 0) (js_insert cmp x xs)"
proof (induction xs)
  case Nil
  then show ?case by simp
next
  case (Cons y ys)
  from Cons.prems have y: "y \<in> A" and ys: "set ys \<subseteq> A"
    and y_first: "\<forall>z \<in> set ys. cmp y z \<le> 0" and sorted_ys: "sorted_wrt (\<lambda>a b. cmp a b \<le> 0) ys"
    by auto
  show ?case
  proof (cases "cmp x y \<le> 0")
    case True
    have "cmp x z \<le> 0" if "z \<in> set ys" for z
      using trans [OF x y _ True] y_first ys that by blast
    with True Cons.prems show ?thesis by simp
  next
    case False
    then have yx: "cmp y x \<le> 0" using total [OF x y] by simp
    have "sorted_wrt (\<lambda>a b. cmp a b \<le> 0) (js_insert cmp x ys)"
      using Cons.IH ys sorted_ys by blast
    with False yx y_first show ?thesis by (simp add: js_insert_set)
  qed
qed

lemma js_sort_sorted:
  assumes total: "\<And>a b. a \<in> set xs \<Longrightarrow> b \<in> set xs
            \<Longrightarrow> 0 < SortCompare comparefn a b \<Longrightarrow> SortCompare comparefn b a \<le> 0"
    and trans: "\<And>a b c. a \<in> set xs \<Longrightarrow> b \<in> set xs \<Longrightarrow> c \<in> set xs
            \<Longrightarrow> SortCompare comparefn a b \<le> 0 \<Longrightarrow> SortCompare comparefn b c \<le> 0
            \<Longrightarrow> SortCompare comparefn a c \<le> 0"
  shows "sorted_wrt (\<lambda>a b. SortCompare comparefn a b \<le> 0) (js_sort comparefn xs)"
proof -
  have "sorted_wrt (\<lambda>a b. SortCompare comparefn a b \<le> 0)
          (foldr (js_insert (SortCompare comparefn)) ys [])"
    if "set ys \<subseteq> set xs" for ys
    using that
  proof (induction ys)
    case Nil
    then show ?case by simp
  next
    case (Cons y ys)
    have rest: "set (foldr (js_insert (SortCompare comparefn)) ys []) = set ys"
      using js_sort_set [of comparefn ys] by (simp add: js_sort_def)
    have "sorted_wrt (\<lambda>a b. SortCompare comparefn a b \<le> 0)
            (js_insert (SortCompare comparefn) y (foldr (js_insert (SortCompare comparefn)) ys []))"
    proof (rule js_insert_sorted [where A = "set xs"])
      show "y \<in> set xs" using Cons.prems by simp
      show "set (foldr (js_insert (SortCompare comparefn)) ys []) \<subseteq> set xs"
        using rest Cons.prems by simp
      show "sorted_wrt (\<lambda>a b. SortCompare comparefn a b \<le> 0)
              (foldr (js_insert (SortCompare comparefn)) ys [])"
        using Cons by simp
    qed (use total trans in blast)+
    then show ?case by simp
  qed
  then show ?thesis by (simp add: js_sort_def)
qed

section \<open>Properties of building a dictionary from a list\<close>

lemma set_fold_subset:
  "set (foldl (\<lambda>m s. omap_set (key s) s m) m xs) \<subseteq> set m \<union> (\<lambda>s. (key s, s)) ` set xs"
proof (induction xs arbitrary: m)
  case Nil
  then show ?case by simp
next
  case (Cons x xs)
  have "set (foldl (\<lambda>m s. omap_set (key s) s m) (omap_set (key x) x m) xs)
          \<subseteq> set (omap_set (key x) x m) \<union> (\<lambda>s. (key s, s)) ` set xs"
    by (rule Cons.IH)
  also have "\<dots> \<subseteq> insert (key x, x) (set m) \<union> (\<lambda>s. (key s, s)) ` set xs"
    using omap_set_subset [of "key x" x m] by blast
  finally show ?case by auto
qed

lemma keys_fold_set:
  "fst ` set (foldl (\<lambda>m s. omap_set (key s) s m) m xs) = fst ` set m \<union> key ` set xs"
  by (induction xs arbitrary: m) (auto simp: omap_set_keys)

lemma distinct_fold_set:
  "distinct (map fst m) \<Longrightarrow> distinct (map fst (foldl (\<lambda>m s. omap_set (key s) s m) m xs))"
  by (induction xs arbitrary: m) (auto simp: omap_set_distinct)

lemma set_fold_absent_subset:
  "set (foldl (\<lambda>m l. if \<not> omap_has (key l) m then omap_set (key l) l m else m) m xs)
     \<subseteq> set m \<union> {(key l, l) | l. l \<in> set xs \<and> key l \<notin> fst ` set m}"
proof (induction xs arbitrary: m)
  case Nil
  then show ?case by simp
next
  case (Cons x xs)
  let ?step = "\<lambda>m l. if \<not> omap_has (key l) m then omap_set (key l) l m else m"
  show ?case
  proof (cases "omap_has (key x) m")
    case True
    then have "foldl ?step m (x # xs) = foldl ?step m xs" by simp
    with Cons.IH [of m] show ?thesis by auto
  next
    case False
    then have absent: "key x \<notin> fst ` set m" by (simp add: omap_has_keys)
    from False have eq: "foldl ?step m (x # xs) = foldl ?step (omap_set (key x) x m) xs" by simp
    have "set (foldl ?step (omap_set (key x) x m) xs)
            \<subseteq> set (omap_set (key x) x m)
              \<union> {(key l, l) | l. l \<in> set xs \<and> key l \<notin> fst ` set (omap_set (key x) x m)}"
      by (rule Cons.IH)
    also have "\<dots> \<subseteq> insert (key x, x) (set m) \<union> {(key l, l) | l. l \<in> set xs \<and> key l \<notin> fst ` set m}"
      using omap_set_subset [of "key x" x m] by (auto simp: omap_set_keys)
    finally show ?thesis using absent eq by auto
  qed
qed

lemma keys_fold_absent:
  "fst ` set (foldl (\<lambda>m l. if \<not> omap_has (key l) m then omap_set (key l) l m else m) m xs)
     = fst ` set m \<union> key ` set xs"
  by (induction xs arbitrary: m) (auto simp: omap_set_keys omap_has_keys)

lemma distinct_fold_absent:
  "distinct (map fst m) \<Longrightarrow>
   distinct (map fst (foldl (\<lambda>m l. if \<not> omap_has (key l) m then omap_set (key l) l m else m) m xs))"
  by (induction xs arbitrary: m) (auto simp: omap_set_distinct)

lemma keyed_values: "\<forall>p \<in> set m. fst p = key (snd p) \<Longrightarrow> map key (omap_values m) = map fst m"
  by (induction m) (auto simp: omap_values_def)

lemma keyed_fold_values:
  "distinct (map key (omap_values (foldl (\<lambda>m s. omap_set (key s) s m) [] xs)))"
proof -
  let ?m = "foldl (\<lambda>m s. omap_set (key s) s m) [] xs"
  have "set ?m \<subseteq> (\<lambda>s. (key s, s)) ` set xs"
    using set_fold_subset [of key "[]" xs] by simp
  then have "\<forall>p \<in> set ?m. fst p = key (snd p)" by fastforce
  then have "map key (omap_values ?m) = map fst ?m" by (rule keyed_values)
  moreover have "distinct (map fst ?m)" by (rule distinct_fold_set) simp
  ultimately show ?thesis by simp
qed

lemma py_slice_to_distinct_map: "distinct (map f xs) \<Longrightarrow> distinct (map f (py_slice_to k xs))"
  by (simp add: py_slice_to_def take_map [symmetric])


section \<open>Merging the sessions of the backend and of the browser\<close>

lemma SortCompare_lastUpdated:
  "SortCompare (\<lambda>a b. js_minus (getTime (lastUpdated b)) (getTime (lastUpdated a))) x y
   = (case (lastUpdated x, lastUpdated y) of (Date tx, Date ty) \<Rightarrow> ty - tx | _ \<Rightarrow> 0)"
  by (cases "lastUpdated x"; cases "lastUpdated y") (simp_all add: SortCompare_def js_minus_def)

text \<open>
  Claim C10, as amended. \<^verbatim>\<open>smartMergeSessions\<close> returns a list in which no two sessions
  share an id; the ids of the list are those of the backend list and of the local list
  together; a session of the list whose id occurs in the backend list is a session of the
  backend list, so for an id present in both lists the backend version is the one kept;
  and when the \<^verbatim>\<open>lastUpdated\<close> of every session of the two lists is a valid date, the
  list is in descending order of \<^verbatim>\<open>lastUpdated\<close>, newest first.
\<close>

theorem smartMergeSessions_merged:
  "distinct (map session_id (smartMergeSessions backendSessions localSessions))
   \<and> session_id ` set (smartMergeSessions backendSessions localSessions)
       = session_id ` (set backendSessions \<union> set localSessions)
   \<and> (\<forall>s \<in> set (smartMergeSessions backendSessions localSessions).
         session_id s \<in> session_id ` set backendSessions \<longrightarrow> s \<in> set backendSessions)
   \<and> ((\<forall>s \<in> set backendSessions \<union> set localSessions. lastUpdated s \<noteq> Invalid_Date) \<longrightarrow>
        sorted_wrt (\<lambda>a b. \<exists>ta tb. lastUpdated a = Date ta \<and> lastUpdated b = Date tb \<and> tb \<le> ta)
          (smartMergeSessions backendSessions localSessions))"
proof -
  define m1 where "m1 = foldl (\<lambda>m session. omap_set (session_id session) session m) [] backendSessions"
  define m2 where "m2 = foldl (\<lambda>m localSession.
                      if \<not> omap_has (session_id localSession) m
                      then omap_set (session_id localSession) localSession m
                      else m) m1 localSessions"
  define cmp where "cmp = (\<lambda>(a :: ChatSession) (b :: ChatSession).
                      js_minus (getTime (lastUpdated b)) (getTime (lastUpdated a)))"
  have result: "smartMergeSessions backendSessions localSessions = js_sort cmp (omap_values m2)"
    by (simp add: smartMergeSessions_def m1_def m2_def cmp_def)
  have keys1: "fst ` set m1 = session_id ` set backendSessions"
    unfolding m1_def by (simp add: keys_fold_set)
  have set1: "set m1 \<subseteq> (\<lambda>s. (session_id s, s)) ` set backendSessions"
    unfolding m1_def using set_fold_subset [of session_id "[]" backendSessions] by simp
  have dist1: "distinct (map fst m1)"
    unfolding m1_def by (rule distinct_fold_set) simp
  have keys2: "fst ` set m2 = session_id ` (set backendSessions \<union> set localSessions)"
    unfolding m2_def by (simp add: keys_fold_absent keys1 image_Un)
  have dist2: "distinct (map fst m2)"
    unfolding m2_def using dist1 by (rule distinct_fold_absent)
  have set2: "set m2 \<subseteq> set m1 \<union> {(session_id l, l) | l. l \<in> set localSessions \<and> session_id l \<notin> fst ` set m1}"
    unfolding m2_def by (rule set_fold_absent_subset)
  have entry: "(\<exists>s \<in> set backendSessions. p = (session_id s, s))
               \<or> (\<exists>l \<in> set localSessions.
                    p = (session_id l, l) \<and> session_id l \<notin> session_id ` set backendSessions)"
    if "p \<in> set m2" for p
  proof -
    from that set2 have "p \<in> set m1 \<or> p \<in> {(session_id l, l) | l. l \<in> set localSessions \<and> session_id l \<notin> fst ` set m1}"
      by blast
    then show ?thesis
    proof
      assume "p \<in> set m1"
      with set1 show ?thesis by blast
    next
      assume "p \<in> {(session_id l, l) | l. l \<in> set localSessions \<and> session_id l \<notin> fst ` set m1}"
      then show ?thesis unfolding keys1 by blast
    qed
  qed
  have keyed: "\<forall>p \<in> set m2. fst p = session_id (snd p)"
    using entry by fastforce
  have origin: "\<forall>p \<in> set m2. snd p \<in> set backendSessions
                  \<or> session_id (snd p) \<notin> session_id ` set backendSessions"
    using entry by fastforce
  have given: "set (omap_values m2) \<subseteq> set backendSessions \<union> set localSessions"
    using entry by (fastforce simp: omap_values_def)
  have ids: "map session_id (omap_values m2) = map fst m2"
    using keyed by (rule keyed_values)
  have c1: "distinct (map session_id (smartMergeSessions backendSessions localSessions))"
    by (simp add: result js_sort_distinct_map ids dist2)
  have "session_id ` set (omap_values m2) = fst ` set m2"
    using ids by (metis set_map)
  then have c2: "session_id ` set (smartMergeSessions backendSessions localSessions)
       = session_id ` (set backendSessions \<union> set localSessions)"
    by (simp add: result js_sort_set keys2)
  have c3: "\<forall>s \<in> set (smartMergeSessions backendSessions localSessions).
         session_id s \<in> session_id ` set backendSessions \<longrightarrow> s \<in> set backendSessions"
    using origin by (auto simp: result js_sort_set omap_values_def)
  have c4: "sorted_wrt (\<lambda>a b. \<exists>ta tb. lastUpdated a = Date ta \<and> lastUpdated b = Date tb \<and> tb \<le> ta)
          (smartMergeSessions backendSessions localSessions)"
    if valid: "\<forall>s \<in> set backendSessions \<union> set localSessions. lastUpdated s \<noteq> Invalid_Date"
  proof -
    have time: "\<exists>t. lastUpdated s = Date t" if "s \<in> set (omap_values m2)" for s
      using that given valid by (cases "lastUpdated s") auto
    have compare: "SortCompare cmp a b \<le> 0
        \<longleftrightarrow> (\<exists>ta tb. lastUpdated a = Date ta \<and> lastUpdated b = Date tb \<and> tb \<le> ta)"
      if "a \<in> set (omap_values m2)" "b \<in> set (omap_values m2)" for a b
      using time [OF that(1)] time [OF that(2)]
      by (auto simp: cmp_def SortCompare_lastUpdated)
    have "sorted_wrt (\<lambda>a b. SortCompare cmp a b \<le> 0) (js_sort cmp (omap_values m2))"
    proof (rule js_sort_sorted)
      fix a b
      assume "a \<in> set (omap_values m2)" "b \<in> set (omap_values m2)" "0 < SortCompare cmp a b"
      then show "SortCompare cmp b a \<le> 0"
        using time [of a] time [of b] by (auto simp: cmp_def SortCompare_lastUpdated)
    next
      fix a b c
      assume "a \<in> set (omap_values m2)" "b \<in> set (omap_values m2)" "c \<in> set (omap_values m2)"
        "SortCompare cmp a b \<le> 0" "SortCompare cmp b c \<le> 0"
      then show "SortCompare cmp a c \<le> 0"
        using time [of a] time [of b] time [of c] by (auto simp: cmp_def SortCompare_lastUpdated)
    qed
    then have "sorted_wrt (\<lambda>a b. \<exists>ta tb. lastUpdated a = Date ta \<and> lastUpdated b = Date tb \<and> tb \<le> ta)
                 (js_sort cmp (omap_values m2))"
      by (rule sorted_wrt_mono_rel [rotated]) (simp add: compare js_sort_set)
    then show ?thesis by (simp add: result)
  qed
  from c1 c2 c3 c4 show ?thesis by blast
qed

lemma smartMergeSessions_sample:
  "smartMergeSessions sample_backend sample_local
   = [\<lparr>session_id = ''b'', title = ''B'', messages = [], createdAt = Date 2, lastUpdated = Date 9\<rparr>,
      \<lparr>session_id = ''c'', title = ''C'', messages = [], createdAt = Date 3, lastUpdated = Date 6\<rparr>,
      \<lparr>session_id = ''a'', title = ''A'', messages = [], createdAt = Date 1, lastUpdated = Date 5\<rparr>]"
  by (simp add: smartMergeSessions_def sample_backend_def sample_local_def omap_has_def
      omap_values_def js_sort_def SortCompare_def js_minus_def)

theorem smartMergeSessions_merged_witness:
  "smartMergeSessions sample_backend sample_local
   = [\<lparr>session_id = ''b'', title = ''B'', messages = [], createdAt = Date 2, lastUpdated = Date 9\<rparr>,
      \<lparr>session_id = ''c'', title = ''C'', messages = [], createdAt = Date 3, lastUpdated = Date 6\<rparr>,
      \<lparr>session_id = ''a'', title = ''A'', messages = [], createdAt = Date 1, lastUpdated = Date 5\<rparr>]
   \<and> session_id ` set sample_backend \<inter> session_id ` set sample_local = {''a''}
   \<and> \<lparr>session_id = ''a'', title = ''A'', messages = [], createdAt = Date 1, lastUpdated = Date 5\<rparr> \<in> set sample_backend
   \<and> distinct (map session_id (smartMergeSessions sample_backend sample_local))
   \<and> list_all (\<lambda>s. lastUpdated s \<noteq> Invalid_Date) (sample_backend @ sample_local)
   \<and> sorted_wrt (\<lambda>a b. \<exists>ta tb. lastUpdated a = Date ta \<and> lastUpdated b = Date tb \<and> tb \<le> ta)
        (smartMergeSessions sample_backend sample_local)"
proof -
  have valid: "\<forall>s \<in> set sample_backend \<union> set sample_local. lastUpdated s \<noteq> Invalid_Date"
    by (simp add: sample_backend_def sample_local_def)
  have inputs: "session_id ` set sample_backend \<inter> session_id ` set sample_local = {''a''}"
    "\<lparr>session_id = ''a'', title = ''A'', messages = [], createdAt = Date 1, lastUpdated = Date 5\<rparr> \<in> set sample_backend"
    "list_all (\<lambda>s. lastUpdated s \<noteq> Invalid_Date) (sample_backend @ sample_local)"
    by (simp_all add: sample_backend_def sample_local_def)
  from smartMergeSessions_merged [of sample_backend sample_local] valid
  have "distinct (map session_id (smartMergeSessions sample_backend sample_local))"
    and "sorted_wrt (\<lambda>a b. \<exists>ta tb. lastUpdated a = Date ta \<and> lastUpdated b = Date tb \<and> tb \<le> ta)
        (smartMergeSessions sample_backend sample_local)"
    by blast+
  with inputs smartMergeSessions_sample show ?thesis by blast
qed

text \<open>
  Claim C10 as stated fails: it says that the list is newest first for all sessions. A
  backend session whose date is invalid makes the comparator return NaN, which the sort
  reads as "equal". Here the session of time 5 stays in front of the sessions of times 9
  and 6, also when the session with the invalid date is left out of the result.
\<close>

theorem smartMergeSessions_invalid_date_counterexample:
  "smartMergeSessions sample_backend_invalid sample_local_newer
   = [\<lparr>session_id = ''a'', title = ''A'', messages = [], createdAt = Date 1, lastUpdated = Date 5\<rparr>,
      \<lparr>session_id = ''x'', title = ''X'', messages = [], createdAt = Invalid_Date,
        lastUpdated = Invalid_Date\<rparr>,
      \<lparr>session_id = ''b'', title = ''B'', messages = [], createdAt = Date 2, lastUpdated = Date 9\<rparr>,
      \<lparr>session_id = ''c'', title = ''C'', messages = [], createdAt = Date 3, lastUpdated = Date 6\<rparr>]
   \<and> \<not> sorted_wrt (\<lambda>a b. \<exists>ta tb. lastUpdated a = Date ta \<and> lastUpdated b = Date tb \<and> tb \<le> ta)
         (filter (\<lambda>s. lastUpdated s \<noteq> Invalid_Date)
            (smartMergeSessions sample_backend_invalid sample_local_newer))"
  by (simp add: smartMergeSessions_def sample_backend_invalid_def sample_local_newer_def
      omap_has_def omap_values_def js_sort_def SortCompare_def js_minus_def)

section \<open>Logging out\<close>

text \<open>
  Claim C9. Whatever the request to \<^verbatim>\<open>/auth/logout\<close> does (it may fail without a
  response, or with any status), \<^verbatim>\<open>authAPI.logout\<close> returns, so its promise resolves and
  never rejects, and afterwards the cookies \<^verbatim>\<open>auth_token\<close> and \<^verbatim>\<open>session_id\<close> are
  removed while every other cookie is as it was.
\<close>

theorem logout_always_clears:
  "fst (logout adapter b) = Return ()
   \<and> cookies (snd (logout adapter b)) = (cookies b)(''auth_token'' := None, ''session_id'' := None)"
proof (cases "adapter (request_interceptor \<lparr>url = ''/auth/logout'', Authorization = None\<rparr> b)")
  case (Inl error)
  then show ?thesis
    by (simp add: logout_def try_catch_finally_def apiClient_post_def Cookies_remove_def
        console_error_def)
next
  case (Inr response)
  then show ?thesis
    by (simp add: logout_def try_catch_finally_def apiClient_post_def Cookies_remove_def)
qed


text \<open>
  The request is refused with status 401: the interceptor removes \<^verbatim>\<open>auth_token\<close>, the
  error is logged, and \<^verbatim>\<open>logout\<close> still returns with both cookies gone.
\<close>

lemma logout_example:
  "logout (\<lambda>config. Inl (AxiosError (Some 401)) :: axios_error + unit)
     \<lparr>cookies = [''auth_token'' \<mapsto> ''t0'', ''session_id'' \<mapsto> ''s0'', ''theme'' \<mapsto> ''dark''],
      console = []\<rparr>
   = (Return (),
      \<lparr>cookies = [''theme'' \<mapsto> ''dark''],
       console = [(''Logout error:'', AxiosError (Some 401))]\<rparr>)"
  by (simp add: logout_def try_catch_finally_def apiClient_post_def Cookies_remove_def
      console_error_def fun_upd_twist)

section \<open>Retrieval and the query analyzer\<close>

text \<open>
  Claim C4. No two documents that \<^verbatim>\<open>HybridRetriever.retrieve\<close> returns have the same
  \<^verbatim>\<open>page_content\<close>: the union of the dense and the BM25 results holds one document per
  text, and the date filter and the truncation to \<^verbatim>\<open>final_k\<close> only remove documents.
\<close>

theorem retrieve_distinct_page_content:
  "distinct (map page_content (retrieve S target_date query k_dense k_bm25 final_k))"
proof -
  let ?all_docs = "similarity_search S query k_dense @ get_relevant_documents S query"
  let ?union = "omap_values (foldl (\<lambda>d doc. omap_set (page_content doc) doc d) [] ?all_docs)"
  have u: "distinct (map page_content ?union)" by (rule keyed_fold_values)
  then have "distinct (map page_content (filter (\<lambda>d. metadata d ''date'' = target_date) ?union))"
    by (rule distinct_map_filter)
  with u show ?thesis
    by (simp add: retrieve_def Let_def py_slice_to_distinct_map)
qed


text \<open>
  Claim C3, as amended. For a query in which the parser finds no date and which is not
  comparative, \<^verbatim>\<open>analyze_query_and_get_dates\<close> returns the empty date list and the
  strategy \<^verbatim>\<open>no_filter\<close>, and a retrieval that is given no target date filters nothing:
  it returns the first \<^verbatim>\<open>final_k\<close> documents of the deduplicated union. The query handed
  to the assistant, however, carries the default hint \<^verbatim>\<open>Use March 1-5, 2025\<close>.
\<close>

theorem no_date_query_gets_default_hint:
  assumes "parse_multiple_dates_from_question S query = []"
    and "\<not> is_comparative_query S query"
  shows "analyze_query_and_get_dates S query (parse_multiple_dates_from_question S query)
           = ([], ''no_filter'')
         \<and> enhanced_query S query
           = query @ [CHR 0x0A, CHR 0x0A] @ ''[SYSTEM HINT: Use March 1-5, 2025]''
         \<and> retrieve S None query k_dense k_bm25 final_k
           = py_slice_to final_k
               (omap_values (foldl (\<lambda>d doc. omap_set (page_content doc) doc d) []
                  (similarity_search S query k_dense @ get_relevant_documents S query)))"
  using assms
  by (simp add: analyze_query_and_get_dates_def enhanced_query_def date_hint_def retrieve_def
      py_truthy_def)

theorem no_date_query_gets_default_hint_witness:
  "parse_multiple_dates_from_question sample_services ''berapa beban unit 7'' = []
   \<and> \<not> is_comparative_query sample_services ''berapa beban unit 7''
   \<and> date_hint sample_services
         (fst (analyze_query_and_get_dates sample_services ''berapa beban unit 7'' []))
       = ''[SYSTEM HINT: Use March 1-5, 2025]''
   \<and> retrieve sample_services None ''berapa beban unit 7'' 50 50 6
       = [\<lparr>page_content = ''Beban Unit 7: 310 MW'', metadata = [''date'' \<mapsto> ''2025-03-09'']\<rparr>,
          \<lparr>page_content = ''Laporan shift'', metadata = Map.empty\<rparr>]"
  using no_date_query_gets_default_hint [of sample_services "''berapa beban unit 7''" 50 50 6]
  by (simp add: sample_services_def date_hint_def py_slice_to_def omap_values_def)

text \<open>
  Claim C3 as stated fails: it says that no default date set, such as a hinted range
  March 1-5, 2025, takes the place of the missing dates. For the query below the analyzer
  returns \<^verbatim>\<open>no_filter\<close> with no dates, and the query handed on ends with that very hint.
\<close>

theorem no_date_query_counterexample:
  "analyze_query_and_get_dates sample_services ''berapa beban unit 7''
     (parse_multiple_dates_from_question sample_services ''berapa beban unit 7'')
     = ([], ''no_filter'')
   \<and> enhanced_query sample_services ''berapa beban unit 7''
     = ''berapa beban unit 7'' @ [CHR 0x0A, CHR 0x0A] @ ''[SYSTEM HINT: Use March 1-5, 2025]''"
  by (simp add: sample_services_def analyze_query_and_get_dates_def enhanced_query_def
      date_hint_def)

end
